theory Spec2Isabelle
  imports Main
begin

section \<open>Python strings\<close>

text \<open>
  A Python \<open>str\<close> is a sequence of Unicode code points; it is modelled as the list of
  its code points. \<open>cps\<close> reads an ASCII literal as such a list.
\<close>

type_synonym ustring = "nat list"

definition cps :: "string \<Rightarrow> ustring" where
  "cps s = map of_char s"

text \<open>
  The character classes the normalizer uses, on the ASCII range, as CPython defines them:
  \<open>str.isalnum\<close> (digits and letters), \<open>str.isspace\<close> (TAB, LF, VT, FF, CR, the
  separators 28 to 31, and the space) and \<open>str.lower\<close> (A-Z shifted by 32).
\<close>

definition ascii_alnum :: "nat \<Rightarrow> bool" where
  "ascii_alnum c = ((48 \<le> c \<and> c \<le> 57) \<or> (65 \<le> c \<and> c \<le> 90) \<or> (97 \<le> c \<and> c \<le> 122))"

definition ascii_space :: "nat \<Rightarrow> bool" where
  "ascii_space c = ((9 \<le> c \<and> c \<le> 13) \<or> (28 \<le> c \<and> c \<le> 32))"

definition ascii_lower :: "nat \<Rightarrow> nat" where
  "ascii_lower c = (if 65 \<le> c \<and> c \<le> 90 then c + 32 else c)"

text \<open>
  Beyond ASCII the classes come from the Unicode character database of the Python
  runtime, which is not part of the repository: it is a parameter. \<open>uc_lower pre c
  post\<close> is the lowercase expansion of the code point \<open>c\<close> standing between
  \<open>pre\<close> and \<open>post\<close> (the expansion may be longer than one code point, and for
  the capital sigma it depends on the neighbours).
\<close>

record ucd =
  uc_alnum :: "nat \<Rightarrow> bool"
  uc_space :: "nat \<Rightarrow> bool"
  uc_lower :: "ustring \<Rightarrow> nat \<Rightarrow> ustring \<Rightarrow> ustring"

text \<open>The regular-expression classes \<open>\w\<close> (alphanumeric or underscore) and \<open>\s\<close>.\<close>

definition is_word :: "ucd \<Rightarrow> nat \<Rightarrow> bool" where
  "is_word u c = (if c < 128 then ascii_alnum c \<or> c = 95 else uc_alnum u c)"

definition is_space :: "ucd \<Rightarrow> nat \<Rightarrow> bool" where
  "is_space u c = (if c < 128 then ascii_space c else uc_space u c)"

text \<open>\<open>re.sub(r'[^\w\s]', '', c)\<close>: every character that is neither word nor space goes.\<close>

definition remove_special :: "ucd \<Rightarrow> ustring \<Rightarrow> ustring" where
  "remove_special u s = filter (\<lambda>c. is_word u c \<or> is_space u c) s"

text \<open>\<open>.strip()\<close>: leading and trailing whitespace goes.\<close>

definition py_strip :: "ucd \<Rightarrow> ustring \<Rightarrow> ustring" where
  "py_strip u s = rev (dropWhile (is_space u) (rev (dropWhile (is_space u) s)))"

text \<open>\<open>.lower()\<close>: each code point is replaced by its lowercase expansion.\<close>

fun lower_from :: "ucd \<Rightarrow> ustring \<Rightarrow> ustring \<Rightarrow> ustring" where
  "lower_from u pre [] = []"
| "lower_from u pre (c # post) =
     (if c < 128 then [ascii_lower c] else uc_lower u pre c post)
       @ lower_from u (pre @ [c]) post"

definition py_lower :: "ucd \<Rightarrow> ustring \<Rightarrow> ustring" where
  "py_lower u s = lower_from u [] s"

text \<open>\<open>.replace(' ', '_')\<close>: each space (32) becomes an underscore (95).\<close>

definition replace_space :: "ustring \<Rightarrow> ustring" where
  "replace_space s = map (\<lambda>c. if c = 32 then 95 else c) s"

section \<open>The header normalizer\<close>

text \<open>
  \<^verbatim>\<open>
  def convert_columns_to_snake_case(self, cols: list) -> list:
      return [re.sub(r'[^\w\s]', '', c).strip().lower().replace(' ', '_') for c in cols]
  \<close>
\<close>

definition convert_column :: "ucd \<Rightarrow> ustring \<Rightarrow> ustring" where
  "convert_column u c = replace_space (py_lower u (py_strip u (remove_special u c)))"

definition convert_columns_to_snake_case :: "ucd \<Rightarrow> ustring list \<Rightarrow> ustring list" where
  "convert_columns_to_snake_case u cols = map (convert_column u) cols"

text \<open>
  The normalizer as the specification words it: strip the characters outside letters,
  digits, underscore and whitespace, trim, lowercase, and collapse every whitespace run
  to a single underscore. \<open>collapse_ws u r s\<close> walks \<open>s\<close>; \<open>r\<close> tells that the
  previous character was whitespace, so that a run yields one underscore only.
\<close>

fun collapse_ws :: "ucd \<Rightarrow> bool \<Rightarrow> ustring \<Rightarrow> ustring" where
  "collapse_ws u r [] = []"
| "collapse_ws u r (c # cs) =
     (if is_space u c then (if r then collapse_ws u True cs else 95 # collapse_ws u True cs)
      else c # collapse_ws u False cs)"

definition spec_normalize :: "ucd \<Rightarrow> ustring \<Rightarrow> ustring" where
  "spec_normalize u h = collapse_ws u False (py_lower u (py_strip u (remove_special u h)))"

text \<open>
  \<open>single_spaced u s\<close>: every whitespace character of \<open>s\<close> is a space (32) and is not
  followed by another whitespace character.
\<close>

fun single_spaced :: "ucd \<Rightarrow> ustring \<Rightarrow> bool" where
  "single_spaced u [] = True"
| "single_spaced u [c] = (if is_space u c then c = 32 else True)"
| "single_spaced u (c # d # cs) =
     ((if is_space u c then c = 32 \<and> \<not> is_space u d else True) \<and> single_spaced u (d # cs))"

text \<open>
  The entries of the Unicode character database for two code points: U+0130 (capital I
  with dot above) is a letter whose lowercase expansion is U+0069 U+0307, and U+0307
  (combining dot above) is a mark, neither alphanumeric nor whitespace. No other code
  point beyond ASCII is listed.
\<close>

definition ucd_fragment :: ucd where
  "ucd_fragment =
     \<lparr> uc_alnum = (\<lambda>c. c = 304),
       uc_space = (\<lambda>c. False),
       uc_lower = (\<lambda>pre c post. if c = 304 then [105, 775] else [c]) \<rparr>"

text \<open>A string all of whose code points are ASCII.\<close>

definition is_ascii :: "ustring \<Rightarrow> bool" where
  "is_ascii s = list_all (\<lambda>c. c < 128) s"


text \<open>The last two steps of the pipeline on one ASCII code point.\<close>

definition ascii_snake :: "nat \<Rightarrow> nat" where
  "ascii_snake c = (if ascii_lower c = 32 then 95 else ascii_lower c)"

text \<open>
  Comparison of two \<open>str\<close> values, as \<open>>=\<close> computes it: lexicographic, by code
  point; a proper prefix is smaller.
\<close>

fun str_le :: "ustring \<Rightarrow> ustring \<Rightarrow> bool" where
  "str_le [] ys = True"
| "str_le (x # xs) [] = False"
| "str_le (x # xs) (y # ys) = (x < y \<or> (x = y \<and> str_le xs ys))"

definition str_ge :: "ustring \<Rightarrow> ustring \<Rightarrow> bool" where
  "str_ge a b = str_le b a"

section \<open>Descriptors, run metadata and the outside world\<close>

text \<open>
  A dataset descriptor is a dictionary decoded from the catalog's JSON. The model keeps
  the four keys the program reads (\<open>ident\<close> stands for the key \<open>identifier\<close>), each with
  the type the catalog gives it; any of them
  may be missing (\<open>None\<close>). \<open>empty_dataset\<close> is the dictionary \<open>{}\<close>.
\<close>

record distribution_entry =
  downloadURL :: "ustring option"

record dataset =
  ident :: "ustring option"
  modified :: "ustring option"
  theme :: "ustring list option"
  distribution :: "distribution_entry list option"

definition empty_dataset :: dataset where
  "empty_dataset = \<lparr> ident = None, modified = None, theme = None, distribution = None \<rparr>"

text \<open>\<open>self.previous_runs\<close>: \<open>{"last_run": ..., "processed_files": {...}}\<close>.\<close>

record run_metadata =
  last_run :: "ustring option"
  processed_files :: "ustring \<rightharpoonup> ustring"

record dataframe =
  columns :: "ustring list"
  rows :: "ustring list list"

text \<open>
  An HTTP response: \<open>status_ok\<close> tells whether \<open>raise_for_status()\<close> passes,
  \<open>resp_text\<close> is the body.
\<close>

record response =
  status_ok :: bool
  resp_text :: ustring

text \<open>The exceptions that the program can meet; all are subclasses of \<open>Exception\<close>.\<close>

datatype exn =
  KeyError string
  | IndexError
  | UnboundLocalError string
  | ReadCsvError
  | ToCsvError
  | LogError

text \<open>
  The effects of a run, in the order in which they happen: HTTP requests, lines appended
  to the two log files, files written to the output directory, assignments to
  \<open>previous_runs['processed_files']\<close>, and the flush of the metadata file.
\<close>

datatype logfile = ErrorsLog | SuccessLog

datatype message =
  FailedConnect ustring
  | FailedTheme
  | UpToDate ustring
  | FailedDownloadUrl ustring
  | SuccessRead ustring
  | FailedRead ustring
  | ErrorProcessing ustring

datatype event =
  HttpGet ustring
  | Log logfile message
  | SinkWrite ustring dataframe
  | MetaUpdate ustring ustring
  | MetaFlush

text \<open>
  What the program does not decide is a parameter: the Unicode tables, the answer of the
  network to a GET (\<open>None\<close> when \<open>requests.get\<close> raises), the decoding of the catalog
  body by \<open>response.json()\<close> (\<open>None\<close> when it raises, or when the value is not a
  list of dictionaries, so that the list comprehension raises), the parsing of a body by
  \<open>pd.read_csv\<close> (\<open>None\<close> when it raises), whether \<open>to_csv\<close> succeeds, the clock
  and the text that \<open>json.dump\<close> produces. Appending to a log file can fail as
  well: \<open>log_ok n f\<close> tells whether the call of \<open>logger\<close> number \<open>n\<close> of the
  run, if it appends to the file \<open>f\<close>, succeeds.
\<close>

record world =
  unicode :: ucd
  http_get :: "ustring \<Rightarrow> response option"
  json_datasets :: "ustring \<Rightarrow> dataset list option"
  read_csv :: "ustring \<Rightarrow> dataframe option"
  to_csv_ok :: "ustring \<Rightarrow> dataframe \<Rightarrow> bool"
  clock :: ustring
  json_dumps :: "run_metadata \<Rightarrow> ustring"
  log_ok :: "nat \<Rightarrow> logfile \<Rightarrow> bool"

text \<open>
  The processor object and the files it owns: the output directory (one file per
  identifier), the metadata file (\<open>None\<close> when it does not exist), the trace of
  effects so far, and the number of calls of \<open>logger\<close> so far.
\<close>

record processor =
  base_url :: ustring
  previous_runs :: run_metadata
  sink :: "ustring \<rightharpoonup> dataframe"
  metadata_file :: "ustring option"
  trace :: "event list"
  log_calls :: nat

definition emit :: "event \<Rightarrow> processor \<Rightarrow> processor" where
  "emit e p = p\<lparr> trace := trace p @ [e] \<rparr>"

text \<open>
  \<^verbatim>\<open>
  def logger(self, message: str, log_file : str) -> None:
      with open(log_file, "a") as f:
          f.write(f"{datetime.now()} - {message}\n")
  \<close>
  Opening or writing the file can raise (\<open>LogError\<close> stands for the OSError); then
  nothing is appended.
\<close>

definition logger :: "world \<Rightarrow> logfile \<Rightarrow> message \<Rightarrow> processor \<Rightarrow> exn option \<times> processor" where
  "logger w f m p =
     (if log_ok w (log_calls p) f
      then (None, emit (Log f m) (p\<lparr> log_calls := Suc (log_calls p) \<rparr>))
      else (Some LogError, p\<lparr> log_calls := Suc (log_calls p) \<rparr>))"

text \<open>
  A statement that follows a call of \<open>logger\<close>: the exception of the call, if any,
  propagates; otherwise the statement gives its result.
\<close>

definition after_log :: "exn option \<times> processor \<Rightarrow> exn + 'a \<Rightarrow> (exn + 'a) \<times> processor" where
  "after_log lp res = (case lp of (Some e, p) \<Rightarrow> (Inl e, p) | (None, p) \<Rightarrow> (res, p))"

text \<open>The URLs requested in a trace, and the events a run added to a trace.\<close>

fun http_calls :: "event list \<Rightarrow> ustring list" where
  "http_calls [] = []"
| "http_calls (HttpGet url # es) = url # http_calls es"
| "http_calls (e # es) = http_calls es"

definition events_since :: "processor \<Rightarrow> processor \<Rightarrow> event list" where
  "events_since p p' = drop (length (trace p)) (trace p')"

section \<open>The metadata store\<close>

text \<open>
  \<^verbatim>\<open>
  def save_metadata(self)  -> None:
      with open(self.metadata_file, 'w') as f:
          json.dump(self.previous_runs, f, indent=2)
  \<close>
  The write is followed step by step: opening the file in mode \<open>'w'\<close> creates or
  truncates it, then the text goes into that same file, then the file is closed. One
  step writes one character; buffering merges steps, it adds no other file content.
\<close>

datatype save_pc = Opening ustring | Writing ustring | Closed

fun save_step :: "ustring option \<times> save_pc \<Rightarrow> ustring option \<times> save_pc" where
  "save_step (f, Opening new) = (Some [], Writing new)"
| "save_step (f, Writing (c # cs)) = (Some ((case f of None \<Rightarrow> [] | Some t \<Rightarrow> t) @ [c]), Writing cs)"
| "save_step (f, Writing []) = (f, Closed)"
| "save_step (f, Closed) = (f, Closed)"

definition save_metadata_steps :: "nat \<Rightarrow> ustring option \<Rightarrow> ustring \<Rightarrow> ustring option \<times> save_pc" where
  "save_metadata_steps n old new = (save_step ^^ n) (old, Opening new)"

definition save_metadata :: "world \<Rightarrow> processor \<Rightarrow> processor" where
  "save_metadata w p =
     (let new = json_dumps w (previous_runs p)
      in emit MetaFlush
           (p\<lparr> metadata_file := fst (save_metadata_steps (length new + 2) (metadata_file p) new) \<rparr>))"

section \<open>The catalog client\<close>

text \<open>
  \<^verbatim>\<open>
  def connect(self, url: str) -> requests.Response:
      try:
          response = requests.get(url)
          response.raise_for_status()
      except Exception as e:
           self.logger(message = f"Failed to connect to {url}, ...",  log_file="errors.log")
      return response
  \<close>
  When \<open>requests.get\<close> raises, \<open>response\<close> is unbound and the \<open>return\<close> raises;
  when only the status is bad, the response is returned all the same. An exception of
  the logger inside the handler propagates.
\<close>

definition connect :: "world \<Rightarrow> ustring \<Rightarrow> processor \<Rightarrow> (exn + response) \<times> processor" where
  "connect w url p =
     (case http_get w url of
        None \<Rightarrow>
          after_log (logger w ErrorsLog (FailedConnect url) (emit (HttpGet url) p))
            (Inl (UnboundLocalError ''response''))
      | Some r \<Rightarrow>
          if status_ok r then (Inr r, emit (HttpGet url) p)
          else after_log (logger w ErrorsLog (FailedConnect url) (emit (HttpGet url) p)) (Inr r))"

text \<open>
  \<^verbatim>\<open>
  def get_hospital_datasets(self) -> List[Dict]:
      try:
          response = self.connect(f"{self.base_url}")
          datasets = response.json()
          hospital_datasets = [
              dataset for dataset in datasets
              if 'Hospitals' in dataset.get('theme', [])
          ]
          return hospital_datasets
      except Exception as e:
          self.logger(message = f"Failed to indentify Hospital theme, ...",  log_file="errors.log")
          return [{}]
  \<close>
\<close>

definition has_hospitals :: "dataset \<Rightarrow> bool" where
  "has_hospitals d = (case theme d of None \<Rightarrow> False | Some ts \<Rightarrow> cps ''Hospitals'' \<in> set ts)"

definition get_hospital_datasets :: "world \<Rightarrow> processor \<Rightarrow> (exn + dataset list) \<times> processor" where
  "get_hospital_datasets w p =
     (case connect w (base_url p) p of
        (Inl e, p1) \<Rightarrow> after_log (logger w ErrorsLog FailedTheme p1) (Inr [empty_dataset])
      | (Inr r, p1) \<Rightarrow>
          (case json_datasets w (resp_text r) of
             None \<Rightarrow> after_log (logger w ErrorsLog FailedTheme p1) (Inr [empty_dataset])
           | Some datasets \<Rightarrow> (Inr (filter has_hospitals datasets), p1)))"


section \<open>The sync engine\<close>

text \<open>
  \<^verbatim>\<open>
  def process_hospital_data(self, dataset: Dict) -> Optional[pd.DataFrame]:
      try:
          dataset_id = dataset['identifier']
          last_modified = dataset['modified']
          if dataset_id in self.previous_runs['processed_files']:
             if self.previous_runs['processed_files'][dataset_id] >= last_modified:
              self.logger(message = f"Dataset {dataset_id} is up to date, skipping",  log_file="success.log")
              return None
          download_url = dataset.get('distribution', [{}])[0].get('downloadURL')
          if download_url:
              response = self.connect(download_url)
          else:
              self.logger(message = f"Failed to get download url for {dataset_id}", log_file= 'errors.log')
          df = pd.read_csv(io.StringIO(response.text), skip_blank_lines=True, quotechar='"', low_memory=False)
          df.columns = self.convert_columns_to_snake_case(df.columns)
          output_file = self.output_dir / f"{dataset_id}.csv"
          df.to_csv(output_file, index=False)
          self.previous_runs['processed_files'][dataset_id] = last_modified
          self.logger(message = f"Successfully read csv for {dataset_id}", log_file="success.log")
          return df
      except Exception as e:
          self.logger(message = f"Failed to read csv for {dataset_id}", log_file="errors.log")
          return None
  \<close>
\<close>

text \<open>The change-detection gate: the two nested \<open>if\<close>s.\<close>

definition up_to_date :: "processor \<Rightarrow> ustring \<Rightarrow> ustring \<Rightarrow> bool" where
  "up_to_date p dataset_id last_modified =
     (case processed_files (previous_runs p) dataset_id of
        None \<Rightarrow> False
      | Some recorded \<Rightarrow> str_ge recorded last_modified)"

text \<open>
  \<open>dataset.get('distribution', [{}])[0].get('downloadURL')\<close>: a missing key gives the
  list \<open>[{}]\<close>, an empty list raises IndexError.
\<close>

definition download_url :: "dataset \<Rightarrow> exn + ustring option" where
  "download_url d =
     (case (case distribution d of None \<Rightarrow> [\<lparr> downloadURL = None \<rparr>] | Some l \<Rightarrow> l) of
        [] \<Rightarrow> Inl IndexError
      | e # es \<Rightarrow> Inr (downloadURL e))"

text \<open>
  The \<open>if download_url\<close> statement and the read of \<open>response\<close> that follows: an
  absent or empty URL is logged, no request is made, and \<open>response\<close> is unbound.
\<close>

definition fetch :: "world \<Rightarrow> ustring \<Rightarrow> ustring option \<Rightarrow> processor \<Rightarrow> (exn + response) \<times> processor" where
  "fetch w dataset_id url p =
     (case url of
        None \<Rightarrow>
          after_log (logger w ErrorsLog (FailedDownloadUrl dataset_id) p)
            (Inl (UnboundLocalError ''response''))
      | Some a \<Rightarrow>
          if a = [] then
            after_log (logger w ErrorsLog (FailedDownloadUrl dataset_id) p)
              (Inl (UnboundLocalError ''response''))
          else connect w a p)"

text \<open>Parsing, normalizing the header, writing the file, then recording the checkpoint.\<close>

definition set_checkpoint :: "ustring \<Rightarrow> ustring \<Rightarrow> processor \<Rightarrow> processor" where
  "set_checkpoint dataset_id last_modified p =
     emit (MetaUpdate dataset_id last_modified)
       (p\<lparr> previous_runs := (previous_runs p)
             \<lparr> processed_files := (processed_files (previous_runs p))(dataset_id \<mapsto> last_modified) \<rparr> \<rparr>)"

definition to_csv :: "ustring \<Rightarrow> dataframe \<Rightarrow> processor \<Rightarrow> processor" where
  "to_csv dataset_id df p = emit (SinkWrite dataset_id df) (p\<lparr> sink := (sink p)(dataset_id \<mapsto> df) \<rparr>)"

definition store :: "world \<Rightarrow> ustring \<Rightarrow> ustring \<Rightarrow> response \<Rightarrow> processor \<Rightarrow> (exn + dataframe option) \<times> processor" where
  "store w dataset_id last_modified r p =
     (case read_csv w (resp_text r) of
        None \<Rightarrow> (Inl ReadCsvError, p)
      | Some df0 \<Rightarrow>
          (let df = df0\<lparr> columns := convert_columns_to_snake_case (unicode w) (columns df0) \<rparr>
           in if to_csv_ok w dataset_id df
              then after_log
                     (logger w SuccessLog (SuccessRead dataset_id)
                        (set_checkpoint dataset_id last_modified (to_csv dataset_id df p)))
                     (Inr (Some df))
              else (Inl ToCsvError, p)))"

text \<open>The body of the \<open>try\<close>: a raised exception is \<open>Inl\<close>, with the state it left.\<close>

definition try_body :: "world \<Rightarrow> dataset \<Rightarrow> processor \<Rightarrow> (exn + dataframe option) \<times> processor" where
  "try_body w d p =
     (case ident d of
        None \<Rightarrow> (Inl (KeyError ''identifier''), p)
      | Some dataset_id \<Rightarrow>
          (case modified d of
             None \<Rightarrow> (Inl (KeyError ''modified''), p)
           | Some last_modified \<Rightarrow>
               if up_to_date p dataset_id last_modified
               then after_log (logger w SuccessLog (UpToDate dataset_id) p) (Inr None)
               else
                 (case download_url d of
                    Inl e \<Rightarrow> (Inl e, p)
                  | Inr url \<Rightarrow>
                      (case fetch w dataset_id url p of
                         (Inl e, p1) \<Rightarrow> (Inl e, p1)
                       | (Inr r, p1) \<Rightarrow> store w dataset_id last_modified r p1))))"

text \<open>
  The \<open>except\<close> clause: its message reads \<open>dataset_id\<close>, which is unbound when the
  first line of the \<open>try\<close> raised. The clause catches every exception of the body,
  that of the success log after the checkpoint assignment included; an exception of
  its own call of \<open>logger\<close> propagates.
\<close>

definition process_hospital_data :: "world \<Rightarrow> dataset \<Rightarrow> processor \<Rightarrow> (exn + dataframe option) \<times> processor" where
  "process_hospital_data w d p =
     (case try_body w d p of
        (Inr res, p1) \<Rightarrow> (Inr res, p1)
      | (Inl e, p1) \<Rightarrow>
          (case ident d of
             None \<Rightarrow> (Inl (UnboundLocalError ''dataset_id''), p1)
           | Some dataset_id \<Rightarrow>
               after_log (logger w ErrorsLog (FailedRead dataset_id) p1) (Inr None)))"

text \<open>
  \<^verbatim>\<open>
  def process_async_requests(self, max_workers: int = 4)  -> None:
      datasets = self.get_hospital_datasets()
      processed_dfs = []
      with concurrent.futures.ThreadPoolExecutor(max_workers=max_workers) as executor:
          future_to_dataset = {
              executor.submit(self.process_hospital_data, dataset): dataset
              for dataset in datasets
          }
          for future in concurrent.futures.as_completed(future_to_dataset):
              dataset = future_to_dataset[future]
              try:
                  df = future.result()
                  if df is not None:
                      processed_dfs.append(df)
              except Exception as e:
                  self.logger(message=f"Error processing {dataset['identifier']}: {str(e)}",  log_file="errors.log")
      self.previous_runs['last_run'] = datetime.now().isoformat()
      self.save_metadata()
      return processed_dfs
  \<close>
  Every dataset is submitted before the first result is read, and leaving the \<open>with\<close>
  block waits for all of them: all workers run to their end. The model runs them one
  after the other, in the order of the list (the schedule of a pool of one worker), and
  reads the results in that order.
\<close>

fun run_workers :: "world \<Rightarrow> dataset list \<Rightarrow> processor \<Rightarrow> (exn + dataframe option) list \<times> processor" where
  "run_workers w [] p = ([], p)"
| "run_workers w (d # ds) p =
     (case process_hospital_data w d p of
        (r, p1) \<Rightarrow> (case run_workers w ds p1 of (rs, p2) \<Rightarrow> (r # rs, p2)))"

text \<open>
  The loop over the futures: the handler's message reads \<open>dataset['identifier']\<close>, which
  raises KeyError when the key is missing; an exception in the handler ends the loop.
\<close>

fun collect :: "world \<Rightarrow> (dataset \<times> (exn + dataframe option)) list \<Rightarrow> dataframe list \<Rightarrow> processor
    \<Rightarrow> (exn + dataframe list) \<times> processor" where
  "collect w [] processed_dfs p = (Inr processed_dfs, p)"
| "collect w ((d, Inr None) # fs) processed_dfs p = collect w fs processed_dfs p"
| "collect w ((d, Inr (Some df)) # fs) processed_dfs p = collect w fs (processed_dfs @ [df]) p"
| "collect w ((d, Inl e) # fs) processed_dfs p =
     (case ident d of
        None \<Rightarrow> (Inl (KeyError ''identifier''), p)
      | Some i \<Rightarrow>
          (case logger w ErrorsLog (ErrorProcessing i) p of
             (Some e', p1) \<Rightarrow> (Inl e', p1)
           | (None, p1) \<Rightarrow> collect w fs processed_dfs p1))"

definition process_async_requests :: "world \<Rightarrow> processor \<Rightarrow> (exn + dataframe list) \<times> processor" where
  "process_async_requests w p =
     (case get_hospital_datasets w p of
        (Inl e, p1) \<Rightarrow> (Inl e, p1)
      | (Inr datasets, p1) \<Rightarrow>
          (case run_workers w datasets p1 of
             (results, p2) \<Rightarrow>
               (case collect w (zip datasets results) [] p2 of
                  (Inl e, p3) \<Rightarrow> (Inl e, p3)
                | (Inr processed_dfs, p3) \<Rightarrow>
                    (Inr processed_dfs,
                     save_metadata w
                       (p3\<lparr> previous_runs := (previous_runs p3)\<lparr> last_run := Some (clock w) \<rparr> \<rparr>)))))"

text \<open>
  A trace keeps the order of writes and checkpoints: \<open>updates_follow_writes ws es\<close>
  holds when every checkpoint assignment in \<open>es\<close> is for an identifier whose file was
  written earlier in \<open>es\<close> (or is in \<open>ws\<close>, the identifiers written before).
\<close>

fun updates_follow_writes :: "ustring list \<Rightarrow> event list \<Rightarrow> bool" where
  "updates_follow_writes ws [] = True"
| "updates_follow_writes ws (SinkWrite i df # es) = updates_follow_writes (i # ws) es"
| "updates_follow_writes ws (MetaUpdate i m # es) = (i \<in> set ws \<and> updates_follow_writes ws es)"
| "updates_follow_writes ws (e # es) = updates_follow_writes ws es"


text \<open>The identifiers of the descriptors of a list that have one.\<close>

fun identifiers :: "dataset list \<Rightarrow> ustring list" where
  "identifiers [] = []"
| "identifiers (d # ds) =
     (case ident d of None \<Rightarrow> identifiers ds | Some i \<Rightarrow> i # identifiers ds)"

section \<open>Concrete scenarios\<close>

text \<open>
  Descriptor A of the theme Hospitals, modified on 2024-01-02, with a download URL;
  descriptor C, whose first distribution entry has no download URL.
\<close>

definition dataset_A :: dataset where
  "dataset_A =
     \<lparr> ident = Some (cps ''A''), modified = Some (cps ''2024-01-02''),
       theme = Some [cps ''Hospitals''],
       distribution = Some [\<lparr> downloadURL = Some (cps ''http://cms/A.csv'') \<rparr>] \<rparr>"

definition dataset_C :: dataset where
  "dataset_C =
     \<lparr> ident = Some (cps ''C''), modified = Some (cps ''2024-01-02''),
       theme = Some [cps ''Hospitals''],
       distribution = Some [\<lparr> downloadURL = None \<rparr>] \<rparr>"

definition sample_frame :: dataframe where
  "sample_frame = \<lparr> columns = [cps ''Facility Name #1'', cps ''State''], rows = [[cps ''X'', cps ''TX'']] \<rparr>"

text \<open>A table whose two distinct headers normalize to the same name.\<close>

definition colliding_frame :: dataframe where
  "colliding_frame = \<lparr> columns = [cps ''A b'', cps ''a_b''], rows = [[cps ''1'', cps ''2'']] \<rparr>"

text \<open>
  A world in which the catalog and the file of A are served and every write, to the
  output directory and to the logs, succeeds.
\<close>

definition sample_world :: world where
  "sample_world =
     \<lparr> unicode = ucd_fragment,
       http_get = (\<lambda>url.
          if url = cps ''http://cms'' then Some \<lparr> status_ok = True, resp_text = cps ''[A, C]'' \<rparr>
          else if url = cps ''http://cms/A.csv'' then Some \<lparr> status_ok = True, resp_text = cps ''csv'' \<rparr>
          else None),
       json_datasets = (\<lambda>body. if body = cps ''[A, C]'' then Some [dataset_A, dataset_C] else None),
       read_csv = (\<lambda>body. if body = cps ''csv'' then Some sample_frame else None),
       to_csv_ok = (\<lambda>i df. True),
       clock = cps ''2024-01-03'',
       json_dumps = (\<lambda>m. cps ''{}''),
       log_ok = (\<lambda>n f. True) \<rparr>"

text \<open>The same world with the network down, with an unreadable file, with the colliding table.\<close>

definition down_world :: world where
  "down_world = sample_world\<lparr> http_get := (\<lambda>url. None) \<rparr>"

definition garbled_world :: world where
  "garbled_world = sample_world\<lparr> read_csv := (\<lambda>body. None) \<rparr>"

definition collide_world :: world where
  "collide_world = sample_world\<lparr> read_csv := (\<lambda>body. Some colliding_frame) \<rparr>"

text \<open>
  The same world where the file of A is answered by an error page: the status is bad
  (HTTP 404) and the body is the line \<open>Not Found\<close>, which \<open>pd.read_csv\<close> reads as a
  table of one column and no row.
\<close>

definition error_page_world :: world where
  "error_page_world =
     sample_world
       \<lparr> http_get := (\<lambda>url. Some \<lparr> status_ok = False, resp_text = cps ''Not Found'' \<rparr>),
         read_csv := (\<lambda>body. Some \<lparr> columns = [body], rows = [] \<rparr>) \<rparr>"

text \<open>The same world where the success log cannot be appended to.\<close>

definition mute_success_world :: world where
  "mute_success_world = sample_world\<lparr> log_ok := (\<lambda>n f. f = ErrorsLog) \<rparr>"

text \<open>
  A processor on its first run, one that has synchronized A at 2024-01-02, and one that
  has synchronized A the day before.
\<close>

definition fresh_processor :: processor where
  "fresh_processor =
     \<lparr> base_url = cps ''http://cms'',
       previous_runs = \<lparr> last_run = None, processed_files = Map.empty \<rparr>,
       sink = Map.empty, metadata_file = None, trace = [], log_calls = 0 \<rparr>"

definition synced_processor :: processor where
  "synced_processor =
     fresh_processor\<lparr> previous_runs :=
       \<lparr> last_run = Some (cps ''2024-01-02''),
         processed_files = [cps ''A'' \<mapsto> cps ''2024-01-02''] \<rparr> \<rparr>"

definition stale_processor :: processor where
  "stale_processor =
     fresh_processor\<lparr> previous_runs :=
       \<lparr> last_run = Some (cps ''2024-01-01''),
         processed_files = [cps ''A'' \<mapsto> cps ''2024-01-01''] \<rparr> \<rparr>"

section \<open>The header normalizer: properties\<close>


lemmas normalizer_defs = convert_column_def replace_space_def py_lower_def py_strip_def
  remove_special_def is_word_def is_space_def ascii_alnum_def ascii_space_def ascii_lower_def

lemma is_space_32: "is_space u 32"
  by (simp add: is_space_def ascii_space_def)

lemma strip_subset: "set (py_strip u s) \<subseteq> set s"
proof -
  have "set (dropWhile (is_space u) (rev (dropWhile (is_space u) s)))
      \<subseteq> set (rev (dropWhile (is_space u) s))"
    by (rule subsetI) (erule set_dropWhileD)
  moreover have "set (dropWhile (is_space u) s) \<subseteq> set s"
    by (rule subsetI) (erule set_dropWhileD)
  ultimately show ?thesis by (simp add: py_strip_def)
qed

lemma last_dropWhile: "dropWhile P xs \<noteq> [] \<Longrightarrow> last (dropWhile P xs) = last xs"
  by (induction xs) (auto split: if_splits)

lemma dropWhile_hd_id: "xs = [] \<or> \<not> P (hd xs) \<Longrightarrow> dropWhile P xs = xs"
  by (cases xs) auto

text \<open>What \<open>strip\<close> returns neither starts nor ends with whitespace.\<close>

lemma strip_ends:
  "py_strip u s = [] \<or> (\<not> is_space u (hd (py_strip u s)) \<and> \<not> is_space u (last (py_strip u s)))"
proof -
  define X where "X = dropWhile (is_space u) s"
  define Y where "Y = dropWhile (is_space u) (rev X)"
  have B: "py_strip u s = rev Y" by (simp add: py_strip_def X_def Y_def)
  show ?thesis
  proof (cases "Y = []")
    case True
    then show ?thesis using B by simp
  next
    case False
    then have hY: "\<not> is_space u (hd Y)" unfolding Y_def by (simp add: hd_dropWhile)
    from False have "rev X \<noteq> []" unfolding Y_def by auto
    then have Xne: "X \<noteq> []" by simp
    then have hX: "\<not> is_space u (hd X)" unfolding X_def by (simp add: hd_dropWhile)
    have "last Y = last (rev X)" using False unfolding Y_def by (rule last_dropWhile)
    also have "\<dots> = hd X" using Xne by (simp add: last_rev)
    finally have lY: "\<not> is_space u (last Y)" using hX by simp
    show ?thesis using B False hY lY by (simp add: hd_rev last_rev)
  qed
qed

lemma strip_id:
  assumes "s = [] \<or> (\<not> is_space u (hd s) \<and> \<not> is_space u (last s))"
  shows "py_strip u s = s"
proof -
  have 1: "dropWhile (is_space u) s = s" using assms by (intro dropWhile_hd_id) auto
  have "rev s = [] \<or> \<not> is_space u (hd (rev s))" using assms by (auto simp: hd_rev)
  then have 2: "dropWhile (is_space u) (rev s) = rev s" by (rule dropWhile_hd_id)
  show ?thesis by (simp add: py_strip_def 1 2)
qed

text \<open>
  On a string whose whitespace is made of isolated spaces, replacing each space and
  collapsing each run are the same.
\<close>

lemma collapse_single:
  "single_spaced u t \<Longrightarrow> (r \<Longrightarrow> t = [] \<or> \<not> is_space u (hd t)) \<Longrightarrow>
   collapse_ws u r t = replace_space t"
proof (induction u t arbitrary: r rule: single_spaced.induct)
  case (1 u)
  then show ?case by (simp add: replace_space_def)
next
  case (2 u c)
  show ?case
  proof (cases "is_space u c")
    case True
    with 2 have "c = 32" and "\<not> r" by auto
    then show ?thesis using True by (simp add: replace_space_def)
  next
    case False
    then have "c \<noteq> 32" using is_space_32 by auto
    then show ?thesis using False by (simp add: replace_space_def)
  qed
next
  case (3 u c d cs)
  have ss: "single_spaced u (d # cs)" using "3.prems"(1) by simp
  show ?case
  proof (cases "is_space u c")
    case True
    with "3.prems" have c: "c = 32" and nr: "\<not> r" and nd: "\<not> is_space u d" by auto
    have "collapse_ws u True (d # cs) = replace_space (d # cs)"
      using ss nd by (intro "3.IH") auto
    then show ?thesis using True c nr by (simp add: replace_space_def)
  next
    case False
    then have ne: "c \<noteq> 32" using is_space_32 by auto
    have "collapse_ws u False (d # cs) = replace_space (d # cs)"
      using ss by (intro "3.IH") auto
    then show ?thesis using False ne by (simp add: replace_space_def)
  qed
qed

text \<open>On ASCII input the Unicode tables play no part.\<close>

lemma lower_from_ascii: "is_ascii s \<Longrightarrow> lower_from u pre s = map ascii_lower s"
  by (induction s arbitrary: pre) (auto simp: is_ascii_def)

lemma convert_ascii:
  assumes "is_ascii h"
  shows "convert_column u h = map ascii_snake (py_strip u (remove_special u h))"
proof -
  have "set (py_strip u (remove_special u h)) \<subseteq> set h"
    using strip_subset[of u "remove_special u h"] by (auto simp: remove_special_def)
  then have "is_ascii (py_strip u (remove_special u h))"
    using assms by (auto simp: is_ascii_def list_all_iff)
  then show ?thesis
    by (simp add: convert_column_def py_lower_def lower_from_ascii replace_space_def ascii_snake_def)
qed

lemma ascii_snake_props:
  assumes "c < 128" "is_word u c \<or> is_space u c"
  shows "ascii_snake c < 128" "is_word u (ascii_snake c) \<or> is_space u (ascii_snake c)"
    "ascii_snake c \<noteq> 32" "ascii_lower (ascii_snake c) = ascii_snake c"
    "\<not> is_space u c \<Longrightarrow> \<not> is_space u (ascii_snake c)"
  using assms
  by (auto simp: ascii_snake_def is_word_def is_space_def ascii_lower_def ascii_alnum_def
      ascii_space_def split: if_splits)

text \<open>
  Claim C6, as the specification words it, says that the normalizer collapses every
  internal whitespace run to a single underscore. The code replaces each space by an
  underscore instead: on the header \<open>a  b\<close> (two spaces) it returns \<open>a__b\<close>, where the
  specification's wording gives \<open>a_b\<close>.
\<close>

theorem normalizer_collapse_counterexample:
  "convert_column ucd_fragment (cps ''a  b'') = cps ''a__b''
   \<and> spec_normalize ucd_fragment (cps ''a  b'') = cps ''a_b''"
  by (simp add: cps_def spec_normalize_def normalizer_defs)

text \<open>
  Claim C6, amended: for every raw column name in which, once the characters outside
  letters, digits, underscore and whitespace are stripped and the name is trimmed and
  lowercased, every whitespace run is a single space, the normalizer returns the name
  stripped of those characters, trimmed, lowercased, and with every whitespace run
  collapsed to a single underscore; the raw header \<open>Facility Name #1\<close> normalizes to
  \<open>facility_name_1\<close>.
\<close>

theorem normalizer_collapses_single_spaces:
  assumes "single_spaced u (py_lower u (py_strip u (remove_special u h)))"
  shows "convert_column u h = spec_normalize u h
    \<and> convert_column u (cps ''Facility Name #1'') = cps ''facility_name_1''"
proof -
  have "collapse_ws u False (py_lower u (py_strip u (remove_special u h)))
      = replace_space (py_lower u (py_strip u (remove_special u h)))"
    using assms by (rule collapse_single) simp
  then have "convert_column u h = spec_normalize u h"
    by (simp add: convert_column_def spec_normalize_def)
  moreover have "convert_column u (cps ''Facility Name #1'') = cps ''facility_name_1''"
    by (simp add: cps_def normalizer_defs)
  ultimately show ?thesis by simp
qed

theorem normalizer_collapses_single_spaces_witness:
  "single_spaced ucd_fragment
     (py_lower ucd_fragment (py_strip ucd_fragment (remove_special ucd_fragment (cps ''Facility Name #1''))))
   \<and> convert_column ucd_fragment (cps ''Facility Name #1'')
       = spec_normalize ucd_fragment (cps ''Facility Name #1'')
   \<and> spec_normalize ucd_fragment (cps ''Facility Name #1'') = cps ''facility_name_1''"
proof -
  have h: "single_spaced ucd_fragment
     (py_lower ucd_fragment (py_strip ucd_fragment (remove_special ucd_fragment (cps ''Facility Name #1''))))"
    by (simp add: cps_def normalizer_defs)
  note t = normalizer_collapses_single_spaces[OF h]
  have a: "convert_column ucd_fragment (cps ''Facility Name #1'')
      = spec_normalize ucd_fragment (cps ''Facility Name #1'')"
    using t by blast
  have b: "convert_column ucd_fragment (cps ''Facility Name #1'') = cps ''facility_name_1''"
    using t by blast
  show ?thesis using h a b by simp
qed

text \<open>
  Claim C7 says that normalizing a normalized header changes nothing, for every header.
  The lowercase expansion of U+0130 ends with the combining mark U+0307, which is not a
  word character: the first pass keeps the letter and lowercases it, the second pass
  strips the mark.
\<close>

theorem normalizer_idempotence_counterexample:
  "convert_column ucd_fragment [304] = [105, 775]
   \<and> convert_column ucd_fragment (convert_column ucd_fragment [304]) = [105]"
  by (simp add: ucd_fragment_def normalizer_defs)

text \<open>
  Claim C7, amended: header normalization is a function of the header (and of the
  Unicode tables of the runtime), and it is idempotent on every header made of ASCII
  characters: normalizing the normalized header yields it unchanged.
\<close>

theorem normalizer_idempotent_on_ascii:
  assumes "is_ascii h"
  shows "convert_column u (convert_column u h) = convert_column u h"
proof -
  define B where "B = py_strip u (remove_special u h)"
  define D where "D = map ascii_snake B"
  have sub: "set B \<subseteq> set (remove_special u h)" unfolding B_def by (rule strip_subset)
  have Bc: "c < 128 \<and> (is_word u c \<or> is_space u c)" if "c \<in> set B" for c
    using that sub assms by (auto simp: remove_special_def is_ascii_def list_all_iff)
  have cD: "convert_column u h = D" unfolding D_def B_def using assms by (rule convert_ascii)
  have aD: "is_ascii D"
    unfolding D_def is_ascii_def list_all_iff using Bc ascii_snake_props(1) by auto
  have rD: "remove_special u D = D"
    unfolding remove_special_def D_def filter_id_conv using Bc ascii_snake_props(2) by auto
  have ends: "B = [] \<or> (\<not> is_space u (hd B) \<and> \<not> is_space u (last B))"
    unfolding B_def by (rule strip_ends)
  have sD: "py_strip u D = D"
  proof (rule strip_id, cases "B = []")
    case True
    then show "D = [] \<or> (\<not> is_space u (hd D) \<and> \<not> is_space u (last D))" by (simp add: D_def)
  next
    case False
    then have h: "hd B \<in> set B" and l: "last B \<in> set B" by simp_all
    have "\<not> is_space u (ascii_snake (hd B))"
      using ends False Bc[OF h] ascii_snake_props(5) by blast
    moreover have "\<not> is_space u (ascii_snake (last B))"
      using ends False Bc[OF l] ascii_snake_props(5) by blast
    ultimately show "D = [] \<or> (\<not> is_space u (hd D) \<and> \<not> is_space u (last D))"
      using False by (simp add: D_def hd_map last_map)
  qed
  have ff: "ascii_snake (ascii_snake c) = ascii_snake c" if "c \<in> set B" for c
  proof -
    have "ascii_snake c \<noteq> 32" and "ascii_lower (ascii_snake c) = ascii_snake c"
      using Bc[OF that] ascii_snake_props(3,4) by blast+
    then show ?thesis by (simp add: ascii_snake_def[of "ascii_snake c"])
  qed
  have mD: "map ascii_snake D = D" unfolding D_def by (simp add: ff)
  have "convert_column u D = map ascii_snake (py_strip u (remove_special u D))"
    using aD by (rule convert_ascii)
  then have "convert_column u D = D" by (simp add: rD sD mD)
  then show ?thesis by (simp add: cD)
qed

theorem normalizer_idempotent_on_ascii_witness:
  "is_ascii (cps ''Facility Name #1'')
   \<and> convert_column ucd_fragment (convert_column ucd_fragment (cps ''Facility Name #1''))
       = convert_column ucd_fragment (cps ''Facility Name #1'')"
proof -
  have h: "is_ascii (cps ''Facility Name #1'')" by (simp add: cps_def is_ascii_def)
  show ?thesis using h normalizer_idempotent_on_ascii[OF h] by simp
qed

section \<open>The sync engine: one descriptor\<close>

lemmas engine_defs = process_hospital_data_def try_body_def store_def fetch_def connect_def
  logger_def after_log_def emit_def set_checkpoint_def to_csv_def download_url_def

lemmas scenario_defs = dataset_A_def dataset_C_def sample_frame_def colliding_frame_def
  sample_world_def down_world_def garbled_world_def collide_world_def error_page_world_def
  mute_success_world_def fresh_processor_def synced_processor_def stale_processor_def
  empty_dataset_def

lemmas eval_defs = engine_defs up_to_date_def scenario_defs Let_def
  convert_columns_to_snake_case_def cps_def normalizer_defs ucd_fragment_def str_ge_def

lemma str_le_refl: "str_le s s"
  by (induction s) auto

lemma http_calls_append: "http_calls (es @ fs) = http_calls es @ http_calls fs"
  by (induction es rule: http_calls.induct) auto

text \<open>
  Claim C1: a descriptor whose identifier has a recorded timestamp greater than or equal
  to its modified timestamp (the tie included) is skipped. No HTTP request is made, no
  checkpoint and no file is touched and no table is returned, whatever becomes of the
  log; and when the line can be appended to the success log, \<open>process_hospital_data\<close>
  returns \<open>None\<close> and that line is its only effect.
\<close>

theorem up_to_date_is_skipped:
  assumes "ident d = Some i" and "modified d = Some m"
    and "processed_files (previous_runs p) i = Some r"
    and "r = m \<or> str_ge r m"
  shows "http_calls (trace (snd (process_hospital_data w d p))) = http_calls (trace p)
    \<and> previous_runs (snd (process_hospital_data w d p)) = previous_runs p
    \<and> sink (snd (process_hospital_data w d p)) = sink p
    \<and> (\<forall>df. fst (process_hospital_data w d p) \<noteq> Inr (Some df))
    \<and> (log_ok w (log_calls p) SuccessLog \<longrightarrow>
          process_hospital_data w d p
            = (Inr None,
               p\<lparr> trace := trace p @ [Log SuccessLog (UpToDate i)],
                  log_calls := Suc (log_calls p) \<rparr>))"
proof -
  have "str_ge r m" using assms(4) by (auto simp: str_ge_def str_le_refl)
  then have "up_to_date p i m" using assms(3) by (simp add: up_to_date_def)
  then show ?thesis
    using assms(1,2)
    by (simp add: process_hospital_data_def try_body_def logger_def after_log_def emit_def
        http_calls_append)
qed

theorem up_to_date_is_skipped_witness:
  "processed_files (previous_runs synced_processor) (cps ''A'') = modified dataset_A
   \<and> log_ok sample_world (log_calls synced_processor) SuccessLog
   \<and> process_hospital_data sample_world dataset_A synced_processor
       = (Inr None,
          synced_processor\<lparr> trace := trace synced_processor @ [Log SuccessLog (UpToDate (cps ''A''))],
                            log_calls := Suc (log_calls synced_processor) \<rparr>)
   \<and> http_calls (trace (snd (process_hospital_data sample_world dataset_A synced_processor))) = []"
proof -
  have 1: "ident dataset_A = Some (cps ''A'')" by (simp add: dataset_A_def)
  have 2: "modified dataset_A = Some (cps ''2024-01-02'')" by (simp add: dataset_A_def)
  have 3: "processed_files (previous_runs synced_processor) (cps ''A'') = Some (cps ''2024-01-02'')"
    by (simp add: synced_processor_def fresh_processor_def)
  have 4: "cps ''2024-01-02'' = cps ''2024-01-02'' \<or> str_ge (cps ''2024-01-02'') (cps ''2024-01-02'')"
    by simp
  have 5: "http_calls (trace synced_processor) = []"
    by (simp add: synced_processor_def fresh_processor_def)
  have 6: "log_ok sample_world (log_calls synced_processor) SuccessLog"
    by (simp add: sample_world_def)
  note t = up_to_date_is_skipped[OF 1 2 3 4, of sample_world]
  have a: "process_hospital_data sample_world dataset_A synced_processor
       = (Inr None,
          synced_processor\<lparr> trace := trace synced_processor @ [Log SuccessLog (UpToDate (cps ''A''))],
                            log_calls := Suc (log_calls synced_processor) \<rparr>)"
    using t 6 by blast
  have b: "http_calls (trace (snd (process_hospital_data sample_world dataset_A synced_processor)))
      = http_calls (trace synced_processor)"
    using t by blast
  have c: "processed_files (previous_runs synced_processor) (cps ''A'') = modified dataset_A"
    using 2 3 by simp
  show ?thesis using a b[unfolded 5] c 6 by blast
qed

text \<open>
  Claim C10: on a dictionary without the key \<open>identifier\<close> the call raises: the
  \<open>except\<close> clause reads the unbound \<open>dataset_id\<close>. Nothing is logged and no
  outcome is returned.
\<close>

theorem missing_identifier_raises:
  assumes "ident d = None"
  shows "process_hospital_data w d p = (Inl (UnboundLocalError ''dataset_id''), p)"
  using assms by (simp add: process_hospital_data_def try_body_def)

theorem missing_identifier_raises_witness:
  "ident empty_dataset = None
   \<and> fst (get_hospital_datasets down_world fresh_processor) = Inr [empty_dataset]
   \<and> process_hospital_data down_world empty_dataset fresh_processor
       = (Inl (UnboundLocalError ''dataset_id''), fresh_processor)"
proof -
  have 1: "ident empty_dataset = None" by (simp add: empty_dataset_def)
  have 2: "fst (get_hospital_datasets down_world fresh_processor) = Inr [empty_dataset]"
    by (simp add: get_hospital_datasets_def connect_def logger_def after_log_def
        down_world_def sample_world_def)
  show ?thesis using 1 2 missing_identifier_raises[OF 1, of down_world fresh_processor] by simp
qed

text \<open>
  What one call does to the checkpoints, the files and the trace: a call that returns a
  table has recorded and written it; a call touches the checkpoint and the file of its
  own identifier only; it adds events to the trace, each checkpoint after its write.
\<close>

lemma updated_call:
  assumes "process_hospital_data w d p = (Inr (Some df), p')"
  shows "\<exists>i m. ident d = Some i \<and> modified d = Some m
     \<and> processed_files (previous_runs p') i = Some m \<and> sink p' i = Some df"
  using assms
  by (auto simp: engine_defs Let_def split: option.splits if_splits sum.splits prod.splits list.splits)

lemma other_call:
  assumes "process_hospital_data w d p = (r, p')" and "ident d \<noteq> Some i"
  shows "processed_files (previous_runs p') i = processed_files (previous_runs p) i
    \<and> sink p' i = sink p i"
  using assms
  by (auto simp: engine_defs Let_def split: option.splits if_splits sum.splits prod.splits list.splits)

lemma call_trace:
  assumes "process_hospital_data w d p = (r, p')"
  shows "trace p' = trace p @ events_since p p'"
  using assms unfolding events_since_def
  by (auto simp: engine_defs Let_def split: option.splits if_splits sum.splits prod.splits list.splits)

lemma call_order:
  assumes "process_hospital_data w d p = (r, p')"
  shows "updates_follow_writes ws (events_since p p')"
  using assms unfolding events_since_def
  by (auto simp: engine_defs Let_def split: option.splits if_splits sum.splits prod.splits list.splits)

text \<open>
  A descriptor without a download URL, past the gate: no request and no checkpoint,
  whatever becomes of the log; and the two lines and \<open>None\<close> when the error log can
  be appended to.
\<close>

lemma missing_locator_quiet:
  assumes "ident d = Some i" and "modified d = Some m"
    and "processed_files (previous_runs q) i = None"
    and "download_url d = Inr None"
  shows "http_calls (trace (snd (process_hospital_data w d q))) = http_calls (trace q)
    \<and> previous_runs (snd (process_hospital_data w d q)) = previous_runs q"
proof -
  have "\<not> up_to_date q i m" using assms(3) by (simp add: up_to_date_def)
  then show ?thesis
    using assms(1,2,4)
    by (simp add: process_hospital_data_def try_body_def fetch_def logger_def after_log_def
        emit_def http_calls_append)
qed

lemma missing_locator_call:
  assumes "ident d = Some i" and "modified d = Some m"
    and "processed_files (previous_runs q) i = None"
    and "download_url d = Inr None"
    and "\<forall>n. log_ok w n ErrorsLog"
  shows "process_hospital_data w d q
      = (Inr None,
         q\<lparr> trace := trace q @ [Log ErrorsLog (FailedDownloadUrl i), Log ErrorsLog (FailedRead i)],
            log_calls := log_calls q + 2 \<rparr>)"
proof -
  have "\<not> up_to_date q i m" using assms(3) by (simp add: up_to_date_def)
  then show ?thesis
    using assms(1,2,4,5)
    by (simp add: process_hospital_data_def try_body_def fetch_def logger_def after_log_def
        emit_def)
qed

text \<open>
  The \<open>except\<close> clause itself assigns no checkpoint and writes no file; and as long
  as the success log can be appended to, the body of the \<open>try\<close> that raises has
  assigned none.
\<close>

lemma except_clause_keeps_checkpoint:
  assumes "try_body w d p = (Inl e, p1)"
  shows "previous_runs (snd (process_hospital_data w d p)) = previous_runs p1
    \<and> sink (snd (process_hospital_data w d p)) = sink p1"
  using assms
  by (auto simp: process_hospital_data_def logger_def after_log_def emit_def split: option.splits)

lemma raise_before_checkpoint:
  assumes "try_body w d p = (Inl e, p1)" and "\<forall>n. log_ok w n SuccessLog"
  shows "previous_runs p1 = previous_runs p"
  using assms
  by (auto simp: engine_defs Let_def split: option.splits if_splits sum.splits prod.splits list.splits)

section \<open>The sync engine: the run\<close>

lemma events_since_append: "trace p' = trace p @ evs \<Longrightarrow> events_since p p' = evs"
  by (simp add: events_since_def)

lemma events_since_trans:
  assumes "trace p1 = trace p @ events_since p p1" and "trace p2 = trace p1 @ events_since p1 p2"
  shows "events_since p p2 = events_since p p1 @ events_since p1 p2"
proof -
  have "trace p2 = trace p @ (events_since p p1 @ events_since p1 p2)" using assms by simp
  then show ?thesis by (rule events_since_append)
qed

lemma run_trace:
  "run_workers w ds p = (rs, p') \<Longrightarrow> trace p' = trace p @ events_since p p'"
proof (induction ds arbitrary: p rs p')
  case Nil
  then show ?case by (simp add: events_since_def)
next
  case (Cons d ds)
  obtain r p1 where 1: "process_hospital_data w d p = (r, p1)"
    by (cases "process_hospital_data w d p")
  obtain rs1 p2 where 2: "run_workers w ds p1 = (rs1, p2)" by (cases "run_workers w ds p1")
  have p2: "p' = p2" using Cons.prems 1 2 by simp
  have e: "events_since p p2 = events_since p p1 @ events_since p1 p2"
    using call_trace[OF 1] Cons.IH[OF 2] by (rule events_since_trans)
  show ?case unfolding p2 e using call_trace[OF 1] Cons.IH[OF 2] by simp
qed

lemma run_frame:
  "run_workers w ds p = (rs, p') \<Longrightarrow> i \<notin> set (identifiers ds) \<Longrightarrow>
   processed_files (previous_runs p') i = processed_files (previous_runs p) i \<and> sink p' i = sink p i"
proof (induction ds arbitrary: p rs p')
  case Nil
  then show ?case by simp
next
  case (Cons d ds)
  obtain r p1 where 1: "process_hospital_data w d p = (r, p1)"
    by (cases "process_hospital_data w d p")
  obtain rs1 p2 where 2: "run_workers w ds p1 = (rs1, p2)" by (cases "run_workers w ds p1")
  have p2: "p' = p2" using Cons.prems 1 2 by simp
  have nd: "ident d \<noteq> Some i" and nds: "i \<notin> set (identifiers ds)"
    using Cons.prems(2) by (auto split: option.splits)
  show ?case unfolding p2 using other_call[OF 1 nd] Cons.IH[OF 2 nds] by simp
qed

lemma ident_in_identifiers:
  "k < length ds \<Longrightarrow> ident (ds ! k) = Some i \<Longrightarrow> i \<in> set (identifiers ds)"
proof (induction ds arbitrary: k)
  case Nil
  then show ?case by simp
next
  case (Cons d ds)
  then show ?case by (cases k) (auto split: option.splits)
qed

text \<open>
  With distinct identifiers, the worker of a descriptor meets the checkpoint and the
  file of its identifier as they were at the start of the run, and leaves them as they
  are at its end.
\<close>

lemma run_at:
  "run_workers w ds p = (rs, p') \<Longrightarrow> distinct (identifiers ds) \<Longrightarrow> k < length ds \<Longrightarrow>
   ident (ds ! k) = Some i \<Longrightarrow>
   \<exists>q q'. processed_files (previous_runs q) i = processed_files (previous_runs p) i
      \<and> sink q i = sink p i
      \<and> process_hospital_data w (ds ! k) q = (rs ! k, q')
      \<and> processed_files (previous_runs p') i = processed_files (previous_runs q') i
      \<and> sink p' i = sink q' i"
proof (induction ds arbitrary: p rs p' k)
  case Nil
  then show ?case by simp
next
  case (Cons d ds)
  obtain r p1 where 1: "process_hospital_data w d p = (r, p1)"
    by (cases "process_hospital_data w d p")
  obtain rs1 p2 where 2: "run_workers w ds p1 = (rs1, p2)" by (cases "run_workers w ds p1")
  have p2: "p' = p2" and rs: "rs = r # rs1" using Cons.prems(1) 1 2 by simp_all
  show ?case
  proof (cases k)
    case 0
    then have di: "ident d = Some i" using Cons.prems(4) by simp
    then have "i \<notin> set (identifiers ds)" using Cons.prems(2) by simp
    then have "processed_files (previous_runs p2) i = processed_files (previous_runs p1) i
        \<and> sink p2 i = sink p1 i"
      using run_frame[OF 2] by simp
    then show ?thesis using 0 1 p2 rs by auto
  next
    case (Suc j)
    then have j: "j < length ds" and ij: "ident (ds ! j) = Some i"
      using Cons.prems(3,4) by simp_all
    have dd: "distinct (identifiers ds)" using Cons.prems(2) by (auto split: option.splits)
    have "i \<in> set (identifiers ds)" using ident_in_identifiers[OF j ij] .
    then have nd: "ident d \<noteq> Some i" using Cons.prems(2) by (auto split: option.splits)
    obtain q q' where q:
      "processed_files (previous_runs q) i = processed_files (previous_runs p1) i"
      "sink q i = sink p1 i" "process_hospital_data w (ds ! j) q = (rs1 ! j, q')"
      "processed_files (previous_runs p2) i = processed_files (previous_runs q') i"
      "sink p2 i = sink q' i"
      using Cons.IH[OF 2 dd j ij] by blast
    show ?thesis using q other_call[OF 1 nd] Suc p2 rs by auto
  qed
qed

lemma order_append:
  "updates_follow_writes ws es \<Longrightarrow> (\<And>vs. updates_follow_writes vs fs) \<Longrightarrow>
   updates_follow_writes ws (es @ fs)"
  by (induction ws es rule: updates_follow_writes.induct) auto

lemma run_order:
  "run_workers w ds p = (rs, p') \<Longrightarrow> updates_follow_writes ws (events_since p p')"
proof (induction ds arbitrary: p rs p' ws)
  case Nil
  then show ?case by (simp add: events_since_def)
next
  case (Cons d ds)
  obtain r p1 where 1: "process_hospital_data w d p = (r, p1)"
    by (cases "process_hospital_data w d p")
  obtain rs1 p2 where 2: "run_workers w ds p1 = (rs1, p2)" by (cases "run_workers w ds p1")
  have p2: "p' = p2" using Cons.prems 1 2 by simp
  have e: "events_since p p2 = events_since p p1 @ events_since p1 p2"
    using call_trace[OF 1] run_trace[OF 2] by (rule events_since_trans)
  show ?case unfolding p2 e
    using call_order[OF 1] Cons.IH[OF 2] by (rule order_append)
qed

text \<open>
  Claim C2: in a run over descriptors with distinct identifiers, a descriptor whose
  outcome is Updated (its worker returns the table) has, once all workers are done, its
  modified timestamp as the checkpoint of its identifier and its table in the output
  directory; and every checkpoint assignment of the run comes after the write of the
  file of the same identifier.
\<close>

theorem updated_checkpoint_follows_write:
  assumes "run_workers w ds p = (rs, p')" and "distinct (identifiers ds)"
    and "k < length ds" and "rs ! k = Inr (Some df)"
  shows "\<exists>i m. ident (ds ! k) = Some i \<and> modified (ds ! k) = Some m
      \<and> processed_files (previous_runs p') i = Some m
      \<and> sink p' i = Some df
      \<and> updates_follow_writes [] (events_since p p')"
proof -
  have raised: "fst (process_hospital_data w (ds ! k) q) \<noteq> Inr (Some df)" if "ident (ds ! k) = None" for q
    using that by (simp add: process_hospital_data_def try_body_def)
  have len: "length rs = length ds"
    using assms(1) by (induction ds arbitrary: p rs p') (auto split: prod.splits)
  have at: "\<exists>q q'. process_hospital_data w (ds ! k) q = (rs ! k, q')"
    using assms(1,3)
  proof (induction ds arbitrary: p rs p' k)
    case Nil
    then show ?case by simp
  next
    case (Cons d ds)
    obtain r p1 where 1: "process_hospital_data w d p = (r, p1)"
      by (cases "process_hospital_data w d p")
    obtain rs1 p2 where 2: "run_workers w ds p1 = (rs1, p2)" by (cases "run_workers w ds p1")
    have rs: "rs = r # rs1" using Cons.prems(1) 1 2 by simp
    show ?case
    proof (cases k)
      case 0
      then show ?thesis using 1 rs by auto
    next
      case (Suc j)
      then have "j < length ds" using Cons.prems(2) by simp
      then show ?thesis using Cons.IH[OF 2] Suc rs by auto
    qed
  qed
  have "ident (ds ! k) \<noteq> None"
  proof
    assume none: "ident (ds ! k) = None"
    obtain q q' where "process_hospital_data w (ds ! k) q = (rs ! k, q')" using at by blast
    then have "fst (process_hospital_data w (ds ! k) q) = Inr (Some df)" using assms(4) by simp
    then show False using raised[OF none] by simp
  qed
  then obtain i where i: "ident (ds ! k) = Some i" by blast
  obtain q q' where q:
    "process_hospital_data w (ds ! k) q = (rs ! k, q')"
    "processed_files (previous_runs p') i = processed_files (previous_runs q') i"
    "sink p' i = sink q' i"
    using run_at[OF assms(1,2,3) i] by blast
  obtain j m where jm: "ident (ds ! k) = Some j" "modified (ds ! k) = Some m"
    "processed_files (previous_runs q') j = Some m" "sink q' j = Some df"
    using updated_call[OF q(1)[unfolded assms(4)]] by blast
  have "j = i" using jm(1) i by simp
  then show ?thesis using i jm q run_order[OF assms(1)] by auto
qed

theorem updated_checkpoint_follows_write_witness:
  "distinct (identifiers [dataset_A, dataset_C])
   \<and> fst (run_workers sample_world [dataset_A, dataset_C] fresh_processor) ! 0
       = Inr (Some \<lparr> columns = [cps ''facility_name_1'', cps ''state''], rows = [[cps ''X'', cps ''TX'']] \<rparr>)
   \<and> processed_files (previous_runs (snd (run_workers sample_world [dataset_A, dataset_C] fresh_processor)))
        (cps ''A'') = Some (cps ''2024-01-02'')
   \<and> sink (snd (run_workers sample_world [dataset_A, dataset_C] fresh_processor)) (cps ''A'')
       = Some \<lparr> columns = [cps ''facility_name_1'', cps ''state''], rows = [[cps ''X'', cps ''TX'']] \<rparr>
   \<and> updates_follow_writes []
        (events_since fresh_processor (snd (run_workers sample_world [dataset_A, dataset_C] fresh_processor)))"
proof -
  define R where "R = run_workers sample_world [dataset_A, dataset_C] fresh_processor"
  have run: "run_workers sample_world [dataset_A, dataset_C] fresh_processor = (fst R, snd R)"
    by (simp add: R_def)
  have d: "distinct (identifiers [dataset_A, dataset_C])"
    by (simp add: dataset_A_def dataset_C_def cps_def)
  have k: "0 < length [dataset_A, dataset_C]" by simp
  have r0: "fst R ! 0
      = Inr (Some \<lparr> columns = [cps ''facility_name_1'', cps ''state''], rows = [[cps ''X'', cps ''TX'']] \<rparr>)"
    unfolding R_def by (simp add: eval_defs)
  obtain i m where im: "ident ([dataset_A, dataset_C] ! 0) = Some i"
    "modified ([dataset_A, dataset_C] ! 0) = Some m"
    "processed_files (previous_runs (snd R)) i = Some m"
    "sink (snd R) i
       = Some \<lparr> columns = [cps ''facility_name_1'', cps ''state''], rows = [[cps ''X'', cps ''TX'']] \<rparr>"
    "updates_follow_writes [] (events_since fresh_processor (snd R))"
    using updated_checkpoint_follows_write[OF run d k r0] by blast
  have i: "i = cps ''A''" and m: "m = cps ''2024-01-02''"
    using im(1,2) by (simp_all add: dataset_A_def)
  show ?thesis using d r0 im(3,4,5) unfolding i m R_def by blast
qed

text \<open>
  Claim C3 says that a dataset whose outcome is Failed, after any exception during the
  fetch, the parse, the normalization or the write, keeps the checkpoint it had. The
  code breaks it on two paths. When the download is answered by an error status,
  \<open>raise_for_status\<close> raises inside \<open>connect\<close>, which logs the failure and returns
  the response all the same: the error page is parsed and written, and the checkpoint
  moves from 2024-01-01 to 2024-01-02. When the success log cannot be appended to, the
  exception comes after the checkpoint assignment: the \<open>except\<close> clause reports the
  dataset as failed and returns \<open>None\<close>, with the checkpoint moved as well.
\<close>

theorem failure_advances_checkpoint:
  "processed_files (previous_runs stale_processor) (cps ''A'') = Some (cps ''2024-01-01'')
   \<and> events_since stale_processor
         (snd (process_hospital_data error_page_world dataset_A stale_processor))
       = [HttpGet (cps ''http://cms/A.csv''),
          Log ErrorsLog (FailedConnect (cps ''http://cms/A.csv'')),
          SinkWrite (cps ''A'') \<lparr> columns = [cps ''not_found''], rows = [] \<rparr>,
          MetaUpdate (cps ''A'') (cps ''2024-01-02''),
          Log SuccessLog (SuccessRead (cps ''A''))]
   \<and> processed_files
         (previous_runs (snd (process_hospital_data error_page_world dataset_A stale_processor)))
         (cps ''A'') = Some (cps ''2024-01-02'')
   \<and> fst (process_hospital_data mute_success_world dataset_A stale_processor) = Inr None
   \<and> events_since stale_processor
         (snd (process_hospital_data mute_success_world dataset_A stale_processor))
       = [HttpGet (cps ''http://cms/A.csv''),
          SinkWrite (cps ''A'')
            \<lparr> columns = [cps ''facility_name_1'', cps ''state''], rows = [[cps ''X'', cps ''TX'']] \<rparr>,
          MetaUpdate (cps ''A'') (cps ''2024-01-02''),
          Log ErrorsLog (FailedRead (cps ''A''))]
   \<and> processed_files
         (previous_runs (snd (process_hospital_data mute_success_world dataset_A stale_processor)))
         (cps ''A'') = Some (cps ''2024-01-02'')"
  by (simp add: events_since_def eval_defs)

text \<open>
  Claim C8: in a run over descriptors with distinct identifiers, a descriptor with no
  download URL in its first distribution entry, whose identifier has no checkpoint,
  fails. In whatever state its worker runs it makes no HTTP request, and the checkpoint
  of the identifier is still absent after the run; and when the error log can be
  appended to, the worker logs the missing locator and the failure, and returns
  \<open>None\<close>.
\<close>

theorem missing_locator_fails:
  assumes "run_workers w ds p = (rs, p')" and "distinct (identifiers ds)" and "k < length ds"
    and "ident (ds ! k) = Some i" and "modified (ds ! k) = Some m"
    and "download_url (ds ! k) = Inr None"
    and "processed_files (previous_runs p) i = None"
  shows "processed_files (previous_runs p') i = None
    \<and> (\<forall>q. processed_files (previous_runs q) i = None \<longrightarrow>
          http_calls (trace (snd (process_hospital_data w (ds ! k) q))) = http_calls (trace q))
    \<and> ((\<forall>n. log_ok w n ErrorsLog) \<longrightarrow>
          rs ! k = Inr None
          \<and> (\<forall>q. processed_files (previous_runs q) i = None \<longrightarrow>
                process_hospital_data w (ds ! k) q
                  = (Inr None,
                     q\<lparr> trace := trace q
                            @ [Log ErrorsLog (FailedDownloadUrl i), Log ErrorsLog (FailedRead i)],
                        log_calls := log_calls q + 2 \<rparr>)))"
proof -
  obtain q q' where q:
    "processed_files (previous_runs q) i = processed_files (previous_runs p) i"
    "process_hospital_data w (ds ! k) q = (rs ! k, q')"
    "processed_files (previous_runs p') i = processed_files (previous_runs q') i"
    using run_at[OF assms(1,2,3,4)] by blast
  have absent: "processed_files (previous_runs q) i = None" using q(1) assms(7) by simp
  note quiet = missing_locator_quiet[OF assms(4,5) _ assms(6)]
  note call = missing_locator_call[OF assms(4,5) _ assms(6)]
  have "previous_runs q' = previous_runs q" using quiet[OF absent, of w] q(2) by simp
  then have after: "processed_files (previous_runs p') i = None" using q(3) absent by simp
  have nohttp: "http_calls (trace (snd (process_hospital_data w (ds ! k) s))) = http_calls (trace s)"
    if "processed_files (previous_runs s) i = None" for s
    using quiet[OF that, of w] by simp
  have logged: "rs ! k = Inr None
      \<and> (\<forall>s. processed_files (previous_runs s) i = None \<longrightarrow>
            process_hospital_data w (ds ! k) s
              = (Inr None,
                 s\<lparr> trace := trace s
                        @ [Log ErrorsLog (FailedDownloadUrl i), Log ErrorsLog (FailedRead i)],
                    log_calls := log_calls s + 2 \<rparr>))"
    if ok: "\<forall>n. log_ok w n ErrorsLog"
  proof -
    have "rs ! k = Inr None" using call[OF absent ok] q(2) by simp
    moreover have "process_hospital_data w (ds ! k) s
              = (Inr None,
                 s\<lparr> trace := trace s
                        @ [Log ErrorsLog (FailedDownloadUrl i), Log ErrorsLog (FailedRead i)],
                    log_calls := log_calls s + 2 \<rparr>)"
      if "processed_files (previous_runs s) i = None" for s
      using call[OF that ok] .
    ultimately show ?thesis by blast
  qed
  show ?thesis using after nohttp logged by blast
qed

theorem missing_locator_fails_witness:
  "download_url dataset_C = Inr None
   \<and> (\<forall>n. log_ok sample_world n ErrorsLog)
   \<and> fst (run_workers sample_world [dataset_A, dataset_C] fresh_processor) ! 1 = Inr None
   \<and> processed_files (previous_runs (snd (run_workers sample_world [dataset_A, dataset_C] fresh_processor)))
        (cps ''C'') = None
   \<and> trace (snd (process_hospital_data sample_world dataset_C fresh_processor))
       = [Log ErrorsLog (FailedDownloadUrl (cps ''C'')), Log ErrorsLog (FailedRead (cps ''C''))]"
proof -
  define R where "R = run_workers sample_world [dataset_A, dataset_C] fresh_processor"
  have run: "run_workers sample_world [dataset_A, dataset_C] fresh_processor = (fst R, snd R)"
    by (simp add: R_def)
  have d: "distinct (identifiers [dataset_A, dataset_C])"
    by (simp add: dataset_A_def dataset_C_def cps_def)
  have k: "1 < length [dataset_A, dataset_C]" by simp
  have 1: "ident ([dataset_A, dataset_C] ! 1) = Some (cps ''C'')" by (simp add: dataset_C_def)
  have 2: "modified ([dataset_A, dataset_C] ! 1) = Some (cps ''2024-01-02'')"
    by (simp add: dataset_C_def)
  have 3: "download_url ([dataset_A, dataset_C] ! 1) = Inr None"
    by (simp add: download_url_def dataset_C_def)
  have 4: "processed_files (previous_runs fresh_processor) (cps ''C'') = None"
    by (simp add: fresh_processor_def)
  have 5: "\<forall>n. log_ok sample_world n ErrorsLog" by (simp add: sample_world_def)
  note t = missing_locator_fails[OF run d k 1 2 3 4]
  have a: "fst R ! 1 = Inr None" using t 5 by blast
  have b: "processed_files (previous_runs (snd R)) (cps ''C'') = None" using t by blast
  have "process_hospital_data sample_world ([dataset_A, dataset_C] ! 1) fresh_processor
      = (Inr None,
         fresh_processor\<lparr> trace := trace fresh_processor
              @ [Log ErrorsLog (FailedDownloadUrl (cps ''C'')), Log ErrorsLog (FailedRead (cps ''C''))],
            log_calls := log_calls fresh_processor + 2 \<rparr>)"
    using t 4 5 by blast
  then have c: "trace (snd (process_hospital_data sample_world dataset_C fresh_processor))
       = [Log ErrorsLog (FailedDownloadUrl (cps ''C'')), Log ErrorsLog (FailedRead (cps ''C''))]"
    by (simp add: fresh_processor_def)
  have e: "download_url dataset_C = Inr None" using 3 by simp
  show ?thesis using a b c e 5 unfolding R_def by blast
qed

lemma collect_keeps_metadata:
  "collect w fs acc p = (r, p') \<Longrightarrow> previous_runs p' = previous_runs p \<and> sink p' = sink p"
  by (induction w fs acc p rule: collect.induct)
     (auto simp: logger_def emit_def split: option.splits if_splits)

text \<open>
  The checkpoints in memory and the files at the end of \<open>process_async_requests\<close>
  are those the workers left: reading the results, setting \<open>last_run\<close> and flushing
  change neither.
\<close>

lemma checkpoints_after_run:
  assumes "get_hospital_datasets w p = (Inr ds, p1)" and "run_workers w ds p1 = (rs, p2)"
  shows "processed_files (previous_runs (snd (process_async_requests w p)))
      = processed_files (previous_runs p2)
    \<and> sink (snd (process_async_requests w p)) = sink p2"
proof -
  obtain r p3 where c: "collect w (zip ds rs) [] p2 = (r, p3)"
    by (cases "collect w (zip ds rs) [] p2")
  have "previous_runs p3 = previous_runs p2" and "sink p3 = sink p2"
    using collect_keeps_metadata[OF c] by simp_all
  then show ?thesis
    using assms c
    by (cases r) (simp_all add: process_async_requests_def save_metadata_def emit_def Let_def)
qed

section \<open>Header collisions\<close>

text \<open>
  Claim C9 says that two distinct raw headers with the same normalized name are detected
  and the dataset fails. The code has no such check: the table with the headers \<open>A b\<close>
  and \<open>a_b\<close> is written with two columns named \<open>a_b\<close>, and the outcome is Updated.
\<close>

theorem header_collision_counterexample:
  "cps ''A b'' \<noteq> cps ''a_b''
   \<and> convert_column ucd_fragment (cps ''A b'') = convert_column ucd_fragment (cps ''a_b'')
   \<and> fst (process_hospital_data collide_world dataset_A fresh_processor)
       = Inr (Some \<lparr> columns = [cps ''a_b'', cps ''a_b''], rows = [[cps ''1'', cps ''2'']] \<rparr>)"
  by (simp add: eval_defs)

text \<open>
  Claim C9, amended: when two distinct raw headers of a dataset normalize to the same
  name, the engine does not detect it. If the fetch, the parse, the write and the log
  appends succeed, the outcome is Updated: the table returned and written has the
  normalized name of each raw header, in the same order and number, and its rows
  unchanged, so both columns are kept under the same name. Nothing is reported: the
  worker's effects are the request (with the line of \<open>connect\<close> in the error log if
  the status is bad), the write of the file, the checkpoint assignment and the line in
  the success log, and no other.
\<close>

theorem header_collision_is_not_detected:
  assumes "ident d = Some i" and "modified d = Some m" and "\<not> up_to_date p i m"
    and "download_url d = Inr (Some url)" and "url \<noteq> []"
    and "http_get w url = Some r" and "read_csv w (resp_text r) = Some df"
    and "to_csv_ok w i (df\<lparr> columns := map (convert_column (unicode w)) (columns df) \<rparr>)"
    and "\<forall>n f. log_ok w n f"
    and "a < length (columns df)" and "b < length (columns df)"
    and "columns df ! a \<noteq> columns df ! b"
    and "convert_column (unicode w) (columns df ! a) = convert_column (unicode w) (columns df ! b)"
  shows "\<exists>out. fst (process_hospital_data w d p) = Inr (Some out)
    \<and> sink (snd (process_hospital_data w d p)) i = Some out
    \<and> columns out = map (convert_column (unicode w)) (columns df)
    \<and> rows out = rows df
    \<and> length (columns out) = length (columns df)
    \<and> columns out ! a = columns out ! b
    \<and> events_since p (snd (process_hospital_data w d p))
        = HttpGet url # (if status_ok r then [] else [Log ErrorsLog (FailedConnect url)])
          @ [SinkWrite i out, MetaUpdate i m, Log SuccessLog (SuccessRead i)]"
  using assms
  by (auto simp: engine_defs events_since_def Let_def convert_columns_to_snake_case_def)

theorem header_collision_is_not_detected_witness:
  "columns colliding_frame ! 0 \<noteq> columns colliding_frame ! 1
   \<and> (\<forall>n f. log_ok collide_world n f)
   \<and> fst (process_hospital_data collide_world dataset_A fresh_processor)
       = Inr (Some \<lparr> columns = [cps ''a_b'', cps ''a_b''], rows = [[cps ''1'', cps ''2'']] \<rparr>)
   \<and> events_since fresh_processor (snd (process_hospital_data collide_world dataset_A fresh_processor))
       = [HttpGet (cps ''http://cms/A.csv''),
          SinkWrite (cps ''A'') \<lparr> columns = [cps ''a_b'', cps ''a_b''], rows = [[cps ''1'', cps ''2'']] \<rparr>,
          MetaUpdate (cps ''A'') (cps ''2024-01-02''),
          Log SuccessLog (SuccessRead (cps ''A''))]"
proof -
  have 1: "ident dataset_A = Some (cps ''A'')" by (simp add: dataset_A_def)
  have 2: "modified dataset_A = Some (cps ''2024-01-02'')" by (simp add: dataset_A_def)
  have 3: "\<not> up_to_date fresh_processor (cps ''A'') (cps ''2024-01-02'')"
    by (simp add: up_to_date_def fresh_processor_def)
  have 4: "download_url dataset_A = Inr (Some (cps ''http://cms/A.csv''))"
    by (simp add: download_url_def dataset_A_def)
  have 5: "cps ''http://cms/A.csv'' \<noteq> []" by (simp add: cps_def)
  have 6: "http_get collide_world (cps ''http://cms/A.csv'')
      = Some \<lparr> status_ok = True, resp_text = cps ''csv'' \<rparr>"
    by (simp add: collide_world_def sample_world_def cps_def)
  have 7: "read_csv collide_world (resp_text \<lparr> status_ok = True, resp_text = cps ''csv'' \<rparr>)
      = Some colliding_frame"
    by (simp add: collide_world_def)
  have 8: "to_csv_ok collide_world (cps ''A'')
      (colliding_frame\<lparr> columns := map (convert_column (unicode collide_world)) (columns colliding_frame) \<rparr>)"
    by (simp add: collide_world_def sample_world_def)
  have 9: "\<forall>n f. log_ok collide_world n f" by (simp add: collide_world_def sample_world_def)
  have 10: "0 < length (columns colliding_frame)" and 11: "1 < length (columns colliding_frame)"
    by (simp_all add: colliding_frame_def)
  have 12: "columns colliding_frame ! 0 \<noteq> columns colliding_frame ! 1"
    by (simp add: colliding_frame_def cps_def)
  have 13: "convert_column (unicode collide_world) (columns colliding_frame ! 0)
      = convert_column (unicode collide_world) (columns colliding_frame ! 1)"
    by (simp add: collide_world_def sample_world_def colliding_frame_def cps_def normalizer_defs
        ucd_fragment_def)
  obtain out where out:
    "fst (process_hospital_data collide_world dataset_A fresh_processor) = Inr (Some out)"
    "columns out = map (convert_column (unicode collide_world)) (columns colliding_frame)"
    "rows out = rows colliding_frame"
    "events_since fresh_processor (snd (process_hospital_data collide_world dataset_A fresh_processor))
        = HttpGet (cps ''http://cms/A.csv'')
          # (if status_ok \<lparr> status_ok = True, resp_text = cps ''csv'' \<rparr> then []
             else [Log ErrorsLog (FailedConnect (cps ''http://cms/A.csv''))])
          @ [SinkWrite (cps ''A'') out, MetaUpdate (cps ''A'') (cps ''2024-01-02''),
             Log SuccessLog (SuccessRead (cps ''A''))]"
    using header_collision_is_not_detected[OF 1 2 3 4 5 6 7 8 9 10 11 12 13] by blast
  have c: "columns out = [cps ''a_b'', cps ''a_b'']"
    unfolding out(2)
    by (simp add: collide_world_def sample_world_def colliding_frame_def cps_def normalizer_defs
        ucd_fragment_def)
  have r: "rows out = [[cps ''1'', cps ''2'']]"
    unfolding out(3) by (simp add: colliding_frame_def)
  have o: "out = \<lparr> columns = [cps ''a_b'', cps ''a_b''], rows = [[cps ''1'', cps ''2'']] \<rparr>"
    using c r by (cases out) simp
  show ?thesis using 9 12 out(1) out(4) unfolding o by simp
qed

section \<open>A failing catalog\<close>

text \<open>
  Claim C5 says that a failing catalog listing reaches the caller of the run as a
  CatalogUnavailable error and is never turned into a degenerate result. With the network
  down, the listing returns the list \<open>[{}]\<close>, the run hands that dictionary to a
  worker, and the exception that reaches the caller is the KeyError of the handler.
\<close>

theorem catalog_failure_counterexample:
  "fst (get_hospital_datasets down_world fresh_processor) = Inr [empty_dataset]
   \<and> fst (run_workers down_world [empty_dataset] (snd (get_hospital_datasets down_world fresh_processor)))
       = [Inl (UnboundLocalError ''dataset_id'')]
   \<and> fst (process_async_requests down_world fresh_processor) = Inl (KeyError ''identifier'')"
  by (simp add: process_async_requests_def get_hospital_datasets_def engine_defs scenario_defs)

text \<open>
  Claim C5, amended: when the catalog listing fails (the request raises, or the body
  does not decode to a list of descriptors), \<open>get_hospital_datasets\<close> raises no error
  of the catalog: it logs the failure to the error log and, that log being appended
  to, returns the one-element list \<open>[{}]\<close>.
\<close>

theorem catalog_failure_yields_placeholder:
  assumes "http_get w (base_url p) = None
    \<or> (\<exists>r. http_get w (base_url p) = Some r \<and> json_datasets w (resp_text r) = None)"
    and "\<forall>n. log_ok w n ErrorsLog"
  shows "fst (get_hospital_datasets w p) = Inr [empty_dataset]
    \<and> last (trace (snd (get_hospital_datasets w p))) = Log ErrorsLog FailedTheme"
  using assms
  by (auto simp: get_hospital_datasets_def connect_def logger_def after_log_def emit_def)

theorem catalog_failure_yields_placeholder_witness:
  "http_get down_world (base_url fresh_processor) = None
   \<and> (\<forall>n. log_ok down_world n ErrorsLog)
   \<and> fst (get_hospital_datasets down_world fresh_processor) = Inr [empty_dataset]
   \<and> last (trace (snd (get_hospital_datasets down_world fresh_processor))) = Log ErrorsLog FailedTheme"
proof -
  have h: "http_get down_world (base_url fresh_processor) = None"
    by (simp add: down_world_def)
  have l: "\<forall>n. log_ok down_world n ErrorsLog" by (simp add: down_world_def sample_world_def)
  from h have "http_get down_world (base_url fresh_processor) = None
    \<or> (\<exists>r. http_get down_world (base_url fresh_processor) = Some r
          \<and> json_datasets down_world (resp_text r) = None)" by simp
  from catalog_failure_yields_placeholder[OF this l] h l show ?thesis by simp
qed

section \<open>The metadata flush\<close>

lemma save_steps:
  "save_metadata_steps n old new =
     (if n = 0 then (old, Opening new)
      else if n \<le> length new + 1 then (Some (take (n - 1) new), Writing (drop (n - 1) new))
      else (Some new, Closed))"
proof (induction n)
  case 0
  then show ?case by (simp add: save_metadata_steps_def)
next
  case (Suc n)
  have step: "save_metadata_steps (Suc n) old new = save_step (save_metadata_steps n old new)"
    by (simp add: save_metadata_steps_def)
  show ?case
  proof (cases n)
    case 0
    then show ?thesis unfolding step Suc.IH by simp
  next
    case (Suc k)
    consider (inside) "k < length new" | (at_end) "k = length new" | (past) "length new < k"
      by linarith
    then show ?thesis
    proof cases
      case inside
      have d: "drop k new = new ! k # drop (Suc k) new"
        using inside by (simp add: Cons_nth_drop_Suc)
      have t: "take (Suc k) new = take k new @ [new ! k]"
        using inside by (simp add: take_Suc_conv_app_nth)
      show ?thesis unfolding step Suc.IH using inside Suc by (simp add: d t)
    next
      case at_end
      then show ?thesis unfolding step Suc.IH using Suc by simp
    next
      case past
      then show ?thesis unfolding step Suc.IH using Suc by simp
    qed
  qed
qed

text \<open>
  Claim C4 says that at every point of the flush the metadata file holds either the
  complete previous state or the complete new state. Right after the file is opened it
  is empty: neither the previous text nor the new one.
\<close>

theorem save_metadata_not_atomic_counterexample:
  "fst (save_metadata_steps 1 (Some (cps ''{\"last_run\": null, \"processed_files\": {}}''))
          (cps ''{\"last_run\": \"2024-01-03\", \"processed_files\": {}}'')) = Some []
   \<and> fst (save_metadata_steps 1 (Some (cps ''{\"last_run\": null, \"processed_files\": {}}''))
          (cps ''{\"last_run\": \"2024-01-03\", \"processed_files\": {}}''))
       \<noteq> Some (cps ''{\"last_run\": null, \"processed_files\": {}}'')
   \<and> fst (save_metadata_steps 1 (Some (cps ''{\"last_run\": null, \"processed_files\": {}}''))
          (cps ''{\"last_run\": \"2024-01-03\", \"processed_files\": {}}''))
       \<noteq> Some (cps ''{\"last_run\": \"2024-01-03\", \"processed_files\": {}}'')"
  by (simp add: save_metadata_steps_def cps_def)

text \<open>
  Claim C4, amended: the flush writes in place, with no temporary file and no rename.
  Opening the metadata file truncates it, and the new text is then written into it: at
  every point of the flush after the opening the file holds a prefix of the new text,
  empty at first, and when \<open>save_metadata\<close> returns it holds the complete new text.
\<close>

theorem save_metadata_writes_in_place:
  "fst (save_metadata_steps n old new) = (if n = 0 then old else Some (take (n - 1) new))
   \<and> metadata_file (save_metadata w p) = Some (json_dumps w (previous_runs p))"
  by (simp add: save_steps save_metadata_def emit_def Let_def)

end
